theory Spec2Isabelle
  imports Main
begin

section \<open>ccap: command-line argument definitions and their parser (ccap.h)\<close>

text \<open>
  The header declares two classes. \<open>Argument\<close> is a descriptor with a value slot and a
  given-flag; \<open>Args\<close> owns the raw tokens and the registered arguments and parses the
  former into the latter. The private members of the source end in an underscore
  (\<open>name_\<close>, \<open>raw_args_\<close>), which is not a legal name here, so each member \<open>x_\<close> is the
  record field \<open>m_x\<close>.
\<close>

subsection \<open>Data\<close>

datatype TerminationType = Exit | Exception

record Argument =
  m_name :: string
  m_long :: string
  m_short :: char
  m_value :: string
  m_required :: bool
  m_expects_value :: bool
  m_is_option :: bool
  m_is_given :: bool

record Args =
  m_raw_args :: "string list"
  m_args :: "Argument list"
  m_terminateBy :: TerminationType
  m_num_args :: int
  m_about :: string
  m_author :: string
  m_app_name :: string
  m_version :: string

text \<open>
  The ways in which a call does not return to its caller: \<open>exit(0)\<close> after the help text
  (the text written to \<open>std::cout\<close>), \<open>exit(EXIT_FAILURE)\<close> after the diagnostic (the
  text written to \<open>std::cerr\<close>), a \<open>throw\<close> of a string literal, \<open>operator[]\<close> of a
  vector or string beyond its size, and \<open>substr\<close> beyond the size of the string.
\<close>

datatype fault =
    HelpExit string
  | FailureExit string
  | Thrown string
  | OutOfBounds
  | SubstrOutOfRange

subsection \<open>Argument\<close>

definition WithName :: "string \<Rightarrow> Argument" where
  "WithName n =
     \<lparr> m_name = n, m_long = [], m_short = CHR 0x00, m_value = [],
       m_required = False, m_expects_value = False, m_is_option = True,
       m_is_given = False \<rparr>"

definition GetName :: "Argument \<Rightarrow> string" where
  "GetName a = m_name a"

definition GetShort :: "Argument \<Rightarrow> char" where
  "GetShort a = m_short a"

definition SetShort :: "char \<Rightarrow> Argument \<Rightarrow> Argument" where
  "SetShort s a = a\<lparr>m_short := s\<rparr>"

definition GetLong :: "Argument \<Rightarrow> string" where
  "GetLong a = m_long a"

definition SetLong :: "string \<Rightarrow> Argument \<Rightarrow> Argument" where
  "SetLong l a = a\<lparr>m_long := l\<rparr>"

definition SetValue :: "string \<Rightarrow> Argument \<Rightarrow> Argument" where
  "SetValue v a = a\<lparr>m_value := v\<rparr>"

definition GetValue :: "Argument \<Rightarrow> string option" where
  "GetValue a = (if length (m_value a) > 0 then Some (m_value a) else None)"

definition ExpectsValue :: "Argument \<Rightarrow> Argument" where
  "ExpectsValue a = a\<lparr>m_expects_value := True, m_is_option := False\<rparr>"

definition IsExpectingValue :: "Argument \<Rightarrow> bool" where
  "IsExpectingValue a = m_expects_value a"

definition Required :: "Argument \<Rightarrow> Argument" where
  "Required a = a\<lparr>m_required := True\<rparr>"

definition IsRequired :: "Argument \<Rightarrow> bool" where
  "IsRequired a = m_required a"

definition IsOption :: "Argument \<Rightarrow> bool" where
  "IsOption a = m_is_option a"

definition Argument_IsGiven :: "Argument \<Rightarrow> bool" where
  "Argument_IsGiven a = m_is_given a"

definition SetGiven :: "bool \<Rightarrow> Argument \<Rightarrow> Argument" where
  "SetGiven b a = a\<lparr>m_is_given := b\<rparr>"

text \<open>
  The public operations that change an \<open>Argument\<close> after its construction, and a
  sequence of them applied from left to right.
\<close>

datatype Argument_op =
    OpSetShort char
  | OpSetLong string
  | OpSetValue string
  | OpExpectsValue
  | OpRequired
  | OpSetGiven bool

fun apply_op :: "Argument \<Rightarrow> Argument_op \<Rightarrow> Argument" where
  "apply_op a (OpSetShort c) = SetShort c a"
| "apply_op a (OpSetLong l) = SetLong l a"
| "apply_op a (OpSetValue v) = SetValue v a"
| "apply_op a OpExpectsValue = ExpectsValue a"
| "apply_op a OpRequired = Required a"
| "apply_op a (OpSetGiven b) = SetGiven b a"

definition apply_ops :: "Argument \<Rightarrow> Argument_op list \<Rightarrow> Argument" where
  "apply_ops a ops = foldl apply_op a ops"

subsection \<open>Args: construction, registration, queries\<close>

text \<open>
  The constructor copies \<open>argv[1]\<close> .. \<open>argv[argc - 1]\<close> and sets \<open>num_args_\<close> to
  \<open>argc - 1\<close>, or to \<open>argc\<close> when \<open>argc\<close> is 0. \<open>argv\<close> is the list of the C strings;
  it has at least \<open>argc\<close> entries.
\<close>

definition From :: "int \<Rightarrow> string list \<Rightarrow> Args" where
  "From argc argv =
     \<lparr> m_raw_args = map (\<lambda>i. argv ! i) [1 ..< nat argc],
       m_args = [],
       m_terminateBy = Exit,
       m_num_args = (if argc = 0 then argc else argc - 1),
       m_about = [], m_author = [], m_app_name = [], m_version = ''0.0.1'' \<rparr>"

definition Arg :: "Argument \<Rightarrow> Args \<Rightarrow> Args" where
  "Arg item A = A\<lparr>m_args := m_args A @ [item]\<rparr>"

definition SetTerminationType :: "TerminationType \<Rightarrow> Args \<Rightarrow> Args" where
  "SetTerminationType t A = A\<lparr>m_terminateBy := t\<rparr>"

definition SetAbout :: "string \<Rightarrow> Args \<Rightarrow> Args" where
  "SetAbout s A = A\<lparr>m_about := s\<rparr>"

definition SetAuthor :: "string \<Rightarrow> Args \<Rightarrow> Args" where
  "SetAuthor s A = A\<lparr>m_author := s\<rparr>"

definition SetName :: "string \<Rightarrow> Args \<Rightarrow> Args" where
  "SetName s A = A\<lparr>m_app_name := s\<rparr>"

definition SetVersion :: "string \<Rightarrow> Args \<Rightarrow> Args" where
  "SetVersion s A = A\<lparr>m_version := s\<rparr>"

fun Get_loop :: "Argument list \<Rightarrow> string \<Rightarrow> string option" where
  "Get_loop [] arg_name = None"
| "Get_loop (argument # rest) arg_name =
     (if GetName argument = arg_name then GetValue argument else Get_loop rest arg_name)"

definition Get :: "Args \<Rightarrow> string \<Rightarrow> string option" where
  "Get A arg_name = Get_loop (m_args A) arg_name"

fun IsGiven_loop :: "Argument list \<Rightarrow> string \<Rightarrow> bool" where
  "IsGiven_loop [] arg_name = False"
| "IsGiven_loop (argument # rest) arg_name =
     (if GetName argument = arg_name then IsOption argument \<and> Argument_IsGiven argument
      else IsGiven_loop rest arg_name)"

definition IsGiven :: "Args \<Rightarrow> string \<Rightarrow> bool" where
  "IsGiven A arg_name = IsGiven_loop (m_args A) arg_name"

subsection \<open>Args: help and termination\<close>

text \<open>\<open>ShowHelp\<close> writes one line to \<open>std::cout\<close> and calls \<open>exit(0)\<close>.\<close>

definition help_text :: string where
  "help_text = ''TODO: Help Message'' @ [CHR 0x0A]"

definition ShowHelp :: "fault + unit" where
  "ShowHelp = Inl (HelpExit help_text)"

text \<open>
  \<open>Terminate\<close> either writes the diagnostic to \<open>std::cerr\<close> and calls
  \<open>exit(EXIT_FAILURE)\<close>, or throws the string literal \<open>"Exception"\<close>.
\<close>

definition Terminate :: "Args \<Rightarrow> Argument \<Rightarrow> fault + unit" where
  "Terminate A arg =
     (case m_terminateBy A of
        Exit \<Rightarrow>
          Inl (FailureExit (''Error: Missing required value for argument '' @ [CHR 0x27]
                 @ GetName arg @ [CHR 0x27, CHR 0x0A]))
      | Exception \<Rightarrow> Inl (Thrown ''Exception''))"

subsection \<open>Args: the parser\<close>

definition starts_with :: "string \<Rightarrow> string \<Rightarrow> bool" where
  "starts_with s p = (take (length p) s = p)"

text \<open>\<open>raw_args_[k]\<close>: defined only below the size of the vector.\<close>

definition raw_at :: "string list \<Rightarrow> nat \<Rightarrow> fault + string" where
  "raw_at raw k = (if k < length raw then Inr (raw ! k) else Inl OutOfBounds)"

text \<open>\<open>s.substr(pos)\<close>: throws when \<open>pos\<close> is beyond the size.\<close>

definition substr :: "string \<Rightarrow> nat \<Rightarrow> fault + string" where
  "substr s pos = (if pos \<le> length s then Inr (drop pos s) else Inl SubstrOutOfRange)"

text \<open>\<open>s[pos]\<close>: the character, the null character at \<open>pos = size\<close>, undefined beyond.\<close>

definition char_at :: "string \<Rightarrow> nat \<Rightarrow> fault + char" where
  "char_at s pos =
     (if pos < length s then Inr (s ! pos)
      else if pos = length s then Inr (CHR 0x00)
      else Inl OutOfBounds)"

text \<open>
  The loop of \<open>ReadLongArg\<close> over the registered arguments. It has no \<open>break\<close>: every
  argument is visited.
\<close>

fun ReadLongArg_loop ::
  "string list \<Rightarrow> nat \<Rightarrow> string \<Rightarrow> Argument list \<Rightarrow> fault + Argument list" where
  "ReadLongArg_loop raw raw_arg_index name [] = Inr []"
| "ReadLongArg_loop raw raw_arg_index name (arg # rest) =
     (if GetLong arg = name then
        (case (if IsExpectingValue arg then
                 (case raw_at raw (raw_arg_index + 1) of
                    Inl f \<Rightarrow> Inl f
                  | Inr v \<Rightarrow> Inr (SetValue v arg))
               else Inr arg) of
           Inl f \<Rightarrow> Inl f
         | Inr arg1 \<Rightarrow>
             (case ReadLongArg_loop raw raw_arg_index name rest of
                Inl f \<Rightarrow> Inl f
              | Inr rest' \<Rightarrow>
                  Inr ((if IsOption arg1 then SetGiven True arg1 else arg1) # rest')))
      else
        (case ReadLongArg_loop raw raw_arg_index name rest of
           Inl f \<Rightarrow> Inl f
         | Inr rest' \<Rightarrow> Inr (arg # rest')))"

definition ReadLongArg :: "Args \<Rightarrow> nat \<Rightarrow> fault + Args" where
  "ReadLongArg A raw_arg_index =
     (case raw_at (m_raw_args A) raw_arg_index of
        Inl f \<Rightarrow> Inl f
      | Inr tok \<Rightarrow>
          (case substr tok 2 of
             Inl f \<Rightarrow> Inl f
           | Inr name \<Rightarrow>
               if length name = 0 then Inr A
               else
                 (case (if name = ''help'' then ShowHelp else Inr ()) of
                    Inl f \<Rightarrow> Inl f
                  | Inr _ \<Rightarrow>
                      (case ReadLongArg_loop (m_raw_args A) raw_arg_index name (m_args A) of
                         Inl f \<Rightarrow> Inl f
                       | Inr args' \<Rightarrow> Inr (A\<lparr>m_args := args'\<rparr>)))))"

text \<open>
  The loop of \<open>ReadShortArg\<close>. Its \<open>return\<close> leaves the function: the arguments after
  the one that hit it are not visited, those before keep what the loop did to them.
\<close>

fun ReadShortArg_loop ::
  "string list \<Rightarrow> nat \<Rightarrow> char \<Rightarrow> Argument list \<Rightarrow> fault + Argument list" where
  "ReadShortArg_loop raw raw_arg_index shortName [] = Inr []"
| "ReadShortArg_loop raw raw_arg_index shortName (arg # rest) =
     (if GetShort arg = shortName then
        (if IsExpectingValue arg \<and> length raw \<le> raw_arg_index + 1 then Inr (arg # rest)
         else
           (case (if IsExpectingValue arg then
                    (case raw_at raw (raw_arg_index + 1) of
                       Inl f \<Rightarrow> Inl f
                     | Inr v \<Rightarrow> Inr (SetValue v arg))
                  else Inr arg) of
              Inl f \<Rightarrow> Inl f
            | Inr arg1 \<Rightarrow>
                (case ReadShortArg_loop raw raw_arg_index shortName rest of
                   Inl f \<Rightarrow> Inl f
                 | Inr rest' \<Rightarrow>
                     Inr ((if IsOption arg1 then SetGiven True arg1 else arg1) # rest'))))
      else
        (case ReadShortArg_loop raw raw_arg_index shortName rest of
           Inl f \<Rightarrow> Inl f
         | Inr rest' \<Rightarrow> Inr (arg # rest')))"

definition ReadShortArg :: "Args \<Rightarrow> nat \<Rightarrow> fault + Args" where
  "ReadShortArg A raw_arg_index =
     (case raw_at (m_raw_args A) raw_arg_index of
        Inl f \<Rightarrow> Inl f
      | Inr tok \<Rightarrow>
          (case char_at tok 1 of
             Inl f \<Rightarrow> Inl f
           | Inr shortName \<Rightarrow>
               if shortName = CHR 0x00 then Inr A
               else
                 (case (if shortName = CHR ''h'' then ShowHelp else Inr ()) of
                    Inl f \<Rightarrow> Inl f
                  | Inr _ \<Rightarrow>
                      (case ReadShortArg_loop (m_raw_args A) raw_arg_index shortName
                              (m_args A) of
                         Inl f \<Rightarrow> Inl f
                       | Inr args' \<Rightarrow> Inr (A\<lparr>m_args := args'\<rparr>)))))"

text \<open>The body of the scan loop of \<open>Parse\<close> at index \<open>i\<close>.\<close>

definition Parse_body :: "Args \<Rightarrow> nat \<Rightarrow> fault + Args" where
  "Parse_body A i =
     (case raw_at (m_raw_args A) i of
        Inl f \<Rightarrow> Inl f
      | Inr tok \<Rightarrow>
          if starts_with tok ''--'' then ReadLongArg A i
          else if starts_with tok ''-'' then ReadShortArg A i
          else Inr A)"

text \<open>
  Neither reader touches anything but the registered arguments, so the bound of the
  scan loop is the same in every iteration.
\<close>

lemma ReadLongArg_fields:
  assumes "ReadLongArg A i = Inr A'"
  shows "m_raw_args A' = m_raw_args A \<and> m_num_args A' = m_num_args A
         \<and> m_terminateBy A' = m_terminateBy A"
  using assms by (auto simp: ReadLongArg_def split: sum.splits if_splits)

lemma ReadShortArg_fields:
  assumes "ReadShortArg A i = Inr A'"
  shows "m_raw_args A' = m_raw_args A \<and> m_num_args A' = m_num_args A
         \<and> m_terminateBy A' = m_terminateBy A"
  using assms by (auto simp: ReadShortArg_def split: sum.splits if_splits)

lemma Parse_body_fields:
  assumes "Parse_body A i = Inr A'"
  shows "m_raw_args A' = m_raw_args A \<and> m_num_args A' = m_num_args A
         \<and> m_terminateBy A' = m_terminateBy A"
  using assms ReadLongArg_fields [of A i A'] ReadShortArg_fields [of A i A']
  by (auto simp: Parse_body_def split: sum.splits if_splits)

text \<open>The scan loop \<open>for (int i = 0; i < num_args_; ++i)\<close>, from index \<open>i\<close> on.\<close>

function Parse_scan :: "Args \<Rightarrow> nat \<Rightarrow> fault + Args" where
  "Parse_scan A i =
     (if int i < m_num_args A then
        (case Parse_body A i of
           Inl f \<Rightarrow> Inl f
         | Inr A' \<Rightarrow> Parse_scan A' (Suc i))
      else Inr A)"
  by pat_completeness auto
termination
proof (relation "measure (\<lambda>(A, i). nat (m_num_args A) - i)")
  show "wf (measure (\<lambda>(A, i). nat (m_num_args A) - i))" by simp
next
  fix A :: Args and i :: nat and A' :: Args
  assume "int i < m_num_args A" and "Parse_body A i = Inr A'"
  then show "((A', Suc i), (A, i)) \<in> measure (\<lambda>(A, i). nat (m_num_args A) - i)"
    using Parse_body_fields [of A i A'] by auto
qed

declare Parse_scan.simps [simp del]

text \<open>The check of the required arguments, over \<open>args_\<close> as it is after the scan.\<close>

fun Parse_required :: "Args \<Rightarrow> Argument list \<Rightarrow> fault + unit" where
  "Parse_required A [] = Inr ()"
| "Parse_required A (arg # rest) =
     (if IsRequired arg \<and> GetValue arg = None then
        (case Terminate A arg of
           Inl f \<Rightarrow> Inl f
         | Inr _ \<Rightarrow> Parse_required A rest)
      else Parse_required A rest)"

definition Parse :: "Args \<Rightarrow> fault + Args" where
  "Parse A =
     (case Parse_scan A 0 of
        Inl f \<Rightarrow> Inl f
      | Inr A1 \<Rightarrow>
          (case Parse_required A1 (m_args A1) of
             Inl f \<Rightarrow> Inl f
           | Inr _ \<Rightarrow> Inr A1))"


subsection \<open>Notions used in the statements\<close>

text \<open>
  What the constructor establishes about \<open>num_args_\<close> and \<open>raw_args_\<close>, and every
  other operation keeps: the count is the number of tokens, or not positive when there
  is no token (\<open>argc\<close> below 1).
\<close>

definition Args_inv :: "Args \<Rightarrow> bool" where
  "Args_inv A =
     (if m_raw_args A = [] then m_num_args A \<le> 0
      else m_num_args A = int (length (m_raw_args A)))"

text \<open>
  The tokens on which the scan calls \<open>ShowHelp\<close>: \<open>--help\<close>, and every token that
  starts with \<open>-h\<close> (the short reader looks at the character after the dash only).
\<close>

definition shows_help :: "string \<Rightarrow> bool" where
  "shows_help tok = (tok = ''--help'' \<or> starts_with tok ''-h'')"

text \<open>An argument without what parsing writes: its value and its given-flag.\<close>

definition descriptor :: "Argument \<Rightarrow> Argument" where
  "descriptor a = a\<lparr>m_value := [], m_is_given := False\<rparr>"

text \<open>
  What one pass of the loop body of \<open>ReadLongArg\<close> (of \<open>ReadShortArg\<close>) does to one
  argument when token \<open>i + 1\<close> exists.
\<close>

definition long_effect :: "string list \<Rightarrow> nat \<Rightarrow> string \<Rightarrow> Argument \<Rightarrow> Argument" where
  "long_effect raw i name arg =
     (if GetLong arg = name then
        (let arg1 = (if IsExpectingValue arg then SetValue (raw ! (i + 1)) arg else arg)
         in if IsOption arg1 then SetGiven True arg1 else arg1)
      else arg)"

definition short_effect :: "string list \<Rightarrow> nat \<Rightarrow> char \<Rightarrow> Argument \<Rightarrow> Argument" where
  "short_effect raw i c arg =
     (if GetShort arg = c then
        (let arg1 = (if IsExpectingValue arg then SetValue (raw ! (i + 1)) arg else arg)
         in if IsOption arg1 then SetGiven True arg1 else arg1)
      else arg)"

text \<open>
  The last token is \<open>--X\<close> with \<open>X\<close> not empty and the long form of a registered
  argument that expects a value.
\<close>

definition overrun_at_end :: "Args \<Rightarrow> bool" where
  "overrun_at_end A =
     (\<exists>X. last (m_raw_args A) = ''--'' @ X \<and> X \<noteq> []
          \<and> (\<exists>a \<in> set (m_args A). GetLong a = X \<and> IsExpectingValue a))"

text \<open>
  The body of the scan at token \<open>i\<close> stores token \<open>i + 1\<close> as a value: token \<open>i\<close>
  does not show help, a next token exists, and token \<open>i\<close> reaches the \<open>SetValue\<close> of
  one of the two readers for some registered argument.
\<close>

definition takes_next_as_value :: "Args \<Rightarrow> nat \<Rightarrow> bool" where
  "takes_next_as_value A i =
     (i + 1 < length (m_raw_args A) \<and>
      (let tok = m_raw_args A ! i in
       \<not> shows_help tok \<and>
       (if starts_with tok ''--'' then
          drop 2 tok \<noteq> []
          \<and> list_ex (\<lambda>a. GetLong a = drop 2 tok \<and> IsExpectingValue a) (m_args A)
        else
          starts_with tok ''-'' \<and> 2 \<le> length tok \<and> tok ! 1 \<noteq> CHR 0x00
          \<and> list_ex (\<lambda>a. GetShort a = tok ! 1 \<and> IsExpectingValue a) (m_args A))))"

text \<open>
  The relation that carries the comparison of two runs of the scan: \<open>x\<close> is an argument
  during the first run, \<open>y\<close> the same argument during the second, \<open>t\<close> the same argument
  as the first run leaves it. Each of the two fields that parsing writes is, in \<open>y\<close>,
  either what it is in \<open>x\<close> or already what it is in \<open>t\<close>.
\<close>

definition absorbed :: "Argument \<Rightarrow> Argument \<Rightarrow> Argument \<Rightarrow> bool" where
  "absorbed t x y =
     (descriptor x = descriptor t \<and> descriptor y = descriptor t
      \<and> (m_value y = m_value x \<or> m_value y = m_value t)
      \<and> (m_is_given y = m_is_given x \<or> m_is_given y = m_is_given t))"

fun absorbed_list :: "Argument list \<Rightarrow> Argument list \<Rightarrow> Argument list \<Rightarrow> bool" where
  "absorbed_list [] [] [] = True"
| "absorbed_list (t # ts) (x # xs) (y # ys) = (absorbed t x y \<and> absorbed_list ts xs ys)"
| "absorbed_list _ _ _ = False"

section \<open>Properties of the parser\<close>

lemmas Argument_defs =
  WithName_def GetName_def GetShort_def SetShort_def GetLong_def SetLong_def SetValue_def
  GetValue_def ExpectsValue_def IsExpectingValue_def Required_def IsRequired_def
  IsOption_def Argument_IsGiven_def SetGiven_def

text \<open>
  The constructor at an \<open>argv\<close> of exactly \<open>argc\<close> strings: the tokens are all of them
  but the first.
\<close>

lemma nth_range_tl: "map (\<lambda>i. (a # as) ! i) [Suc 0 ..< Suc (length as)] = as"
proof -
  have "[Suc 0 ..< Suc (length as)] = map Suc [0 ..< length as]"
    by (rule map_Suc_upt [symmetric])
  then show ?thesis
    by (simp add: comp_def map_nth del: upt_Suc)
qed

lemma From_eval:
  assumes "int (length argv) = argc"
  shows "From argc argv =
     \<lparr> m_raw_args = tl argv, m_args = [], m_terminateBy = Exit,
       m_num_args = int (length (tl argv)),
       m_about = [], m_author = [], m_app_name = [], m_version = ''0.0.1'' \<rparr>"
proof (cases argv)
  case Nil
  with assms show ?thesis by (simp add: From_def)
next
  case (Cons a as)
  with assms have n: "nat argc = Suc (length as)" and z: "argc \<noteq> 0" "argc - 1 = int (length as)"
    by auto
  show ?thesis
    by (simp add: From_def Cons n z nth_range_tl del: upt_Suc)
qed

lemmas Args_defs =
  From_eval Arg_def SetTerminationType_def SetAbout_def SetAuthor_def SetName_def
  SetVersion_def

lemmas parse_eval =
  Parse_def Parse_scan.simps Parse_body_def ReadLongArg_def ReadShortArg_def raw_at_def
  substr_def char_at_def starts_with_def ShowHelp_def Terminate_def Argument_defs Args_defs

subsection \<open>The invariant of the constructor\<close>

text \<open>
  \<open>Args\<close> has no default constructor: every \<open>Args\<close> comes from \<open>From\<close>, which
  establishes the invariant, and registration and the setters keep it.
\<close>

lemma Args_inv_From: "Args_inv (From argc argv)"
  by (auto simp: Args_inv_def From_def)

lemma Args_inv_Arg: "Args_inv (Arg item A) = Args_inv A"
  by (simp add: Args_inv_def Arg_def)

lemma Args_inv_SetTerminationType: "Args_inv (SetTerminationType t A) = Args_inv A"
  by (simp add: Args_inv_def SetTerminationType_def)

lemma Args_inv_setters:
  "Args_inv (SetAbout s A) = Args_inv A" "Args_inv (SetAuthor s A) = Args_inv A"
  "Args_inv (SetName s A) = Args_inv A" "Args_inv (SetVersion s A) = Args_inv A"
  by (simp_all add: Args_inv_def SetAbout_def SetAuthor_def SetName_def SetVersion_def)

lemma Args_inv_bound: "Args_inv A \<Longrightarrow> (int i < m_num_args A) = (i < length (m_raw_args A))"
  by (auto simp: Args_inv_def split: if_splits)

subsection \<open>The two loops over the registered arguments\<close>

lemma ReadLongArg_loop_map:
  "ReadLongArg_loop raw i name as =
     (if i + 1 < length raw \<or> \<not> (\<exists>a \<in> set as. GetLong a = name \<and> IsExpectingValue a)
      then Inr (map (long_effect raw i name) as)
      else Inl OutOfBounds)"
  by (induction as) (auto simp: long_effect_def raw_at_def Let_def SetValue_def IsOption_def IsExpectingValue_def GetLong_def)

lemma ReadShortArg_loop_total:
  "\<exists>as'. ReadShortArg_loop raw i c as = Inr as'"
  by (induction as) (auto simp: raw_at_def)

lemma ReadShortArg_loop_map:
  "i + 1 < length raw \<Longrightarrow>
     ReadShortArg_loop raw i c as = Inr (map (short_effect raw i c) as)"
  by (induction as) (auto simp: short_effect_def raw_at_def Let_def)

lemma descriptor_long_effect [simp]: "descriptor (long_effect raw i name a) = descriptor a"
  by (simp add: descriptor_def long_effect_def Let_def Argument_defs)

lemma descriptor_short_effect [simp]: "descriptor (short_effect raw i c a) = descriptor a"
  by (simp add: descriptor_def short_effect_def Let_def Argument_defs)

lemma descriptor_SetGiven [simp]: "descriptor (SetGiven b a) = descriptor a"
  by (simp add: descriptor_def Argument_defs)

lemma descriptor_SetValue [simp]: "descriptor (SetValue v a) = descriptor a"
  by (simp add: descriptor_def Argument_defs)

lemma descriptor_getters [simp]:
  "GetLong (descriptor a) = GetLong a" "GetShort (descriptor a) = GetShort a"
  "GetName (descriptor a) = GetName a" "IsExpectingValue (descriptor a) = IsExpectingValue a"
  "IsOption (descriptor a) = IsOption a" "IsRequired (descriptor a) = IsRequired a"
  by (simp_all add: descriptor_def Argument_defs)

lemma descriptor_fields:
  assumes "descriptor a = descriptor b"
  shows "GetLong a = GetLong b" "GetShort a = GetShort b" "GetName a = GetName b"
    "IsExpectingValue a = IsExpectingValue b" "IsOption a = IsOption b"
    "IsRequired a = IsRequired b"
  using assms by (cases a; cases b; simp add: descriptor_def Argument_defs)+

lemma Argument_eqI:
  assumes "descriptor a = descriptor b" "m_value a = m_value b" "m_is_given a = m_is_given b"
  shows "a = b"
  using assms by (cases a; cases b; simp add: descriptor_def)

lemma ReadLongArg_loop_descriptor:
  "ReadLongArg_loop raw i name as = Inr as' \<Longrightarrow> map descriptor as' = map descriptor as"
  by (auto simp: ReadLongArg_loop_map split: if_splits)

lemma ReadShortArg_loop_descriptor:
  "ReadShortArg_loop raw i c as = Inr as' \<Longrightarrow> map descriptor as' = map descriptor as"
proof (induction as arbitrary: as')
  case Nil
  then show ?case by simp
next
  case (Cons a as)
  obtain r where r: "ReadShortArg_loop raw i c as = Inr r"
    using ReadShortArg_loop_total by blast
  with Cons show ?case
    by (auto simp: raw_at_def split: if_splits)
qed

lemma long_match_descriptor:
  assumes "map descriptor as' = map descriptor as"
  shows "(\<exists>a \<in> set as'. GetLong a = X \<and> IsExpectingValue a)
       = (\<exists>a \<in> set as. GetLong a = X \<and> IsExpectingValue a)"
proof -
  have "(\<exists>a \<in> set bs. GetLong a = X \<and> IsExpectingValue a)
      = (\<exists>d \<in> set (map descriptor bs). GetLong d = X \<and> IsExpectingValue d)" for bs
    by simp
  then show ?thesis using assms by metis
qed

lemma list_ex_map_effect:
  assumes "list_ex (\<lambda>a. P a \<and> IsExpectingValue a) as"
    and "\<And>a. P a \<Longrightarrow> IsExpectingValue a \<Longrightarrow> IsExpectingValue (f a) \<and> m_value (f a) = v"
  shows "list_ex (\<lambda>a. IsExpectingValue a \<and> m_value a = v) (map f as)"
  using assms by (auto simp: list_ex_iff)

subsection \<open>The body of the scan\<close>

text \<open>
  The body at a token in range, by cases on the token: it shows help, or it runs the
  long loop, or it runs the short loop, or it does nothing.
\<close>

lemma starts_with_1: "starts_with tok [a] = (\<exists>rest. tok = a # rest)"
  by (cases tok) (auto simp: starts_with_def)

lemma starts_with_2: "starts_with tok [a, b] = (\<exists>rest. tok = a # b # rest)"
  by (cases tok; cases "tl tok") (auto simp: starts_with_def)

lemma Parse_body_unfold:
  assumes "i < length (m_raw_args A)"
  shows "Parse_body A i =
     (let tok = m_raw_args A ! i in
      if shows_help tok then Inl (HelpExit help_text)
      else if starts_with tok ''--'' \<and> drop 2 tok \<noteq> [] then
        (case ReadLongArg_loop (m_raw_args A) i (drop 2 tok) (m_args A) of
           Inl f \<Rightarrow> Inl f
         | Inr as \<Rightarrow> Inr (A\<lparr>m_args := as\<rparr>))
      else if \<not> starts_with tok ''--'' \<and> starts_with tok ''-'' \<and> 2 \<le> length tok
              \<and> tok ! 1 \<noteq> CHR 0x00 then
        (case ReadShortArg_loop (m_raw_args A) i (tok ! 1) (m_args A) of
           Inl f \<Rightarrow> Inl f
         | Inr as \<Rightarrow> Inr (A\<lparr>m_args := as\<rparr>))
      else Inr A)"
proof -
  let ?tok = "m_raw_args A ! i"
  consider (long) "starts_with ?tok ''--''"
    | (short) "\<not> starts_with ?tok ''--''" "starts_with ?tok ''-''"
    | (plain) "\<not> starts_with ?tok ''--''" "\<not> starts_with ?tok ''-''"
    by blast
  then show ?thesis
  proof cases
    case long
    then obtain name where tok: "?tok = ''--'' @ name"
      by (metis append_take_drop_id length_Cons list.size(3) starts_with_def)
    have nh: "\<not> starts_with ?tok ''-h''"
      using tok by (simp add: starts_with_def)
    show ?thesis
      using assms long nh tok
      by (auto simp: Parse_body_def raw_at_def ReadLongArg_def substr_def shows_help_def
            ShowHelp_def help_text_def Let_def starts_with_def)
  next
    case short
    then obtain rest where tok: "?tok = CHR ''-'' # rest"
      by (cases ?tok) (auto simp: starts_with_def)
    show ?thesis
    proof (cases rest)
      case Nil
      with assms short tok show ?thesis
        by (simp add: Parse_body_def raw_at_def ReadShortArg_def char_at_def
            shows_help_def starts_with_def Let_def)
    next
      case (Cons c rest')
      with assms short tok show ?thesis
        by (auto simp: Parse_body_def raw_at_def ReadShortArg_def char_at_def
            shows_help_def starts_with_def Let_def ShowHelp_def help_text_def)
    qed
  next
    case plain
    then have "\<not> shows_help ?tok"
      by (auto simp: shows_help_def starts_with_1 starts_with_2)
    with assms plain show ?thesis
      by (simp add: Parse_body_def raw_at_def Let_def)
  qed
qed

lemma Parse_body_Inr:
  assumes "Parse_body A i = Inr A'"
  shows "A' = A\<lparr>m_args := m_args A'\<rparr>"
    and "map descriptor (m_args A') = map descriptor (m_args A)"
proof -
  have i: "i < length (m_raw_args A)"
    using assms by (auto simp: Parse_body_def raw_at_def split: if_splits)
  show "A' = A\<lparr>m_args := m_args A'\<rparr>"
    using assms
    by (auto simp: Parse_body_unfold [OF i] Let_def split: if_splits sum.splits)
  show "map descriptor (m_args A') = map descriptor (m_args A)"
    using assms ReadLongArg_loop_descriptor ReadShortArg_loop_descriptor
    by (auto simp: Parse_body_unfold [OF i] Let_def split: if_splits sum.splits)
qed

lemma Parse_body_help:
  assumes "i < length (m_raw_args A)" "shows_help (m_raw_args A ! i)"
  shows "Parse_body A i = Inl (HelpExit help_text)"
  using assms by (simp add: Parse_body_unfold)

lemma Parse_body_inner:
  assumes "i + 1 < length (m_raw_args A)" "\<not> shows_help (m_raw_args A ! i)"
  shows "\<exists>A'. Parse_body A i = Inr A'"
proof -
  have i: "i < length (m_raw_args A)" using assms by simp
  obtain r where "ReadShortArg_loop (m_raw_args A) i (m_raw_args A ! i ! 1) (m_args A) = Inr r"
    using ReadShortArg_loop_total by blast
  then show ?thesis
    using assms by (simp add: Parse_body_unfold [OF i] Let_def ReadLongArg_loop_map)
qed

lemma Parse_body_fault:
  assumes "i < length (m_raw_args A)" "Parse_body A i = Inl f"
  shows "(f = HelpExit help_text \<and> shows_help (m_raw_args A ! i))
       \<or> (f = OutOfBounds \<and> \<not> shows_help (m_raw_args A ! i) \<and> i + 1 = length (m_raw_args A)
           \<and> starts_with (m_raw_args A ! i) ''--'' \<and> drop 2 (m_raw_args A ! i) \<noteq> []
           \<and> (\<exists>a \<in> set (m_args A). GetLong a = drop 2 (m_raw_args A ! i)
                 \<and> IsExpectingValue a))"
proof -
  obtain r where "ReadShortArg_loop (m_raw_args A) i (m_raw_args A ! i ! 1) (m_args A) = Inr r"
    using ReadShortArg_loop_total by blast
  then show ?thesis
    using assms
    by (auto simp: Parse_body_unfold Let_def ReadLongArg_loop_map split: if_splits)
qed

lemma Parse_body_last_long:
  assumes "i + 1 = length (m_raw_args A)" "\<not> shows_help (m_raw_args A ! i)"
    "starts_with (m_raw_args A ! i) ''--''" "drop 2 (m_raw_args A ! i) \<noteq> []"
    "a \<in> set (m_args A)" "GetLong a = drop 2 (m_raw_args A ! i)" "IsExpectingValue a"
  shows "Parse_body A i = Inl OutOfBounds"
proof -
  have i: "i < length (m_raw_args A)" using assms by simp
  show ?thesis
    using assms by (auto simp: Parse_body_unfold [OF i] Let_def ReadLongArg_loop_map)
qed

lemma Args_inv_Parse_body:
  "Parse_body A i = Inr A' \<Longrightarrow> Args_inv A' = Args_inv A"
  using Parse_body_fields [of A i A'] by (simp add: Args_inv_def)

subsection \<open>The scan and the check of the required arguments\<close>

lemma Parse_scan_step:
  assumes "Args_inv A" "i < length (m_raw_args A)"
  shows "Parse_scan A i =
     (case Parse_body A i of Inl f \<Rightarrow> Inl f | Inr A' \<Rightarrow> Parse_scan A' (Suc i))"
  using assms by (subst Parse_scan.simps) (simp add: Args_inv_bound)

lemma Parse_scan_end:
  assumes "Args_inv A" "\<not> i < length (m_raw_args A)"
  shows "Parse_scan A i = Inr A"
  using assms by (subst Parse_scan.simps) (simp add: Args_inv_bound)

lemma Parse_scan_fields:
  "Parse_scan A i = Inr A' \<Longrightarrow>
     m_raw_args A' = m_raw_args A \<and> m_num_args A' = m_num_args A
     \<and> m_terminateBy A' = m_terminateBy A"
proof (induction A i rule: Parse_scan.induct)
  case (1 A i)
  show ?case
  proof (cases "int i < m_num_args A")
    case True
    with "1.prems" obtain A1 where b: "Parse_body A i = Inr A1"
      and s: "Parse_scan A1 (Suc i) = Inr A'"
      by (subst (asm) Parse_scan.simps) (auto split: sum.splits)
    from "1.IH" [OF True b s] Parse_body_fields [OF b] show ?thesis by simp
  next
    case False
    with "1.prems" show ?thesis by (subst (asm) Parse_scan.simps) simp
  qed
qed

lemma Parse_scan_Inr:
  "Parse_scan A i = Inr A' \<Longrightarrow>
     A' = A\<lparr>m_args := m_args A'\<rparr> \<and> map descriptor (m_args A') = map descriptor (m_args A)"
proof (induction A i rule: Parse_scan.induct)
  case (1 A i)
  show ?case
  proof (cases "int i < m_num_args A")
    case True
    with "1.prems" obtain A1 where b: "Parse_body A i = Inr A1"
      and s: "Parse_scan A1 (Suc i) = Inr A'"
      by (subst (asm) Parse_scan.simps) (auto split: sum.splits)
    from "1.IH" [OF True b s] have "A' = A1\<lparr>m_args := m_args A'\<rparr>"
      and "map descriptor (m_args A') = map descriptor (m_args A1)" by simp_all
    moreover from Parse_body_Inr [OF b] have "A1 = A\<lparr>m_args := m_args A1\<rparr>"
      and "map descriptor (m_args A1) = map descriptor (m_args A)" by simp_all
    ultimately show ?thesis
      by (metis Args.surjective Args.update_convs(2))
  next
    case False
    with "1.prems" show ?thesis by (subst (asm) Parse_scan.simps) simp
  qed
qed

lemma Parse_scan_help:
  assumes "Args_inv A" "i \<le> k" "k < length (m_raw_args A)" "shows_help (m_raw_args A ! k)"
  shows "Parse_scan A i = Inl (HelpExit help_text)"
  using assms
proof (induction "k - i" arbitrary: i A)
  case 0
  then have "i = k" by simp
  with 0 show ?case
    by (simp add: Parse_scan_step Parse_body_help)
next
  case (Suc d)
  then have ik: "i < k" by simp
  with Suc.prems have il: "i < length (m_raw_args A)" and i1: "i + 1 < length (m_raw_args A)"
    by simp_all
  show ?case
  proof (cases "shows_help (m_raw_args A ! i)")
    case True
    with il Suc.prems show ?thesis
      by (simp add: Parse_scan_step Parse_body_help)
  next
    case False
    then obtain A' where A': "Parse_body A i = Inr A'"
      using Parse_body_inner [OF i1] by blast
    have raw: "m_raw_args A' = m_raw_args A"
      using Parse_body_fields [OF A'] by simp
    have "Parse_scan A' (Suc i) = Inl (HelpExit help_text)"
    proof (rule Suc.hyps(1))
      show "d = k - Suc i" using Suc.hyps(2) by simp
      show "Args_inv A'" using Args_inv_Parse_body [OF A'] Suc.prems by simp
      show "Suc i \<le> k" using ik by simp
      show "k < length (m_raw_args A')" using raw Suc.prems by simp
      show "shows_help (m_raw_args A' ! k)" using raw Suc.prems by simp
    qed
    with A' il Suc.prems show ?thesis
      by (simp add: Parse_scan_step)
  qed
qed

lemma Args_inv_Parse:
  assumes "Parse A = Inr A'"
  shows "Args_inv A' = Args_inv A"
proof -
  from assms have "Parse_scan A 0 = Inr A'"
    by (auto simp: Parse_def split: sum.splits)
  from Parse_scan_fields [OF this] show ?thesis
    by (simp add: Args_inv_def)
qed

lemma Terminate_never_returns: "\<exists>f. Terminate A a = Inl f"
  by (cases "m_terminateBy A") (simp_all add: Terminate_def)

lemma Parse_required_find:
  "Parse_required A as =
     (case find (\<lambda>a. IsRequired a \<and> GetValue a = None) as of
        None \<Rightarrow> Inr ()
      | Some a \<Rightarrow> Terminate A a)"
proof (induction as)
  case Nil
  then show ?case by simp
next
  case (Cons a as)
  obtain f where "Terminate A a = Inl f" using Terminate_never_returns by blast
  with Cons show ?case by simp
qed

lemma overrun_at_end_alt:
  "overrun_at_end A =
     (starts_with (last (m_raw_args A)) ''--'' \<and> drop 2 (last (m_raw_args A)) \<noteq> []
      \<and> (\<exists>a \<in> set (m_args A). GetLong a = drop 2 (last (m_raw_args A))
            \<and> IsExpectingValue a))"
  by (auto simp: overrun_at_end_def starts_with_2)

lemma overrun_at_end_Parse_body:
  assumes "Parse_body A i = Inr A'"
  shows "overrun_at_end A' = overrun_at_end A"
  using long_match_descriptor [OF Parse_body_Inr(2) [OF assms]] Parse_body_fields [OF assms]
  by (simp add: overrun_at_end_def)

lemma Parse_scan_overrun:
  assumes "Args_inv A"
  shows "(Parse_scan A i = Inl OutOfBounds)
       = (i < length (m_raw_args A) \<and> (\<forall>t \<in> set (drop i (m_raw_args A)). \<not> shows_help t)
          \<and> overrun_at_end A)"
  using assms
proof (induction "length (m_raw_args A) - i" arbitrary: i A)
  case 0
  then show ?case by (simp add: Parse_scan_end)
next
  case (Suc d)
  then have il: "i < length (m_raw_args A)" by simp
  have dr: "drop i (m_raw_args A) = m_raw_args A ! i # drop (Suc i) (m_raw_args A)"
    using il by (simp add: Cons_nth_drop_Suc)
  show ?case
  proof (cases "shows_help (m_raw_args A ! i)")
    case True
    with il Suc.prems dr show ?thesis
      by (simp add: Parse_scan_step Parse_body_help)
  next
    case nh: False
    show ?thesis
    proof (cases "i + 1 < length (m_raw_args A)")
      case True
      then obtain A' where A': "Parse_body A i = Inr A'"
        using Parse_body_inner nh by blast
      have raw: "m_raw_args A' = m_raw_args A"
        using Parse_body_fields [OF A'] by simp
      have "(Parse_scan A' (Suc i) = Inl OutOfBounds)
          = (Suc i < length (m_raw_args A')
             \<and> (\<forall>t \<in> set (drop (Suc i) (m_raw_args A')). \<not> shows_help t)
             \<and> overrun_at_end A')"
      proof (rule Suc.hyps(1))
        show "d = length (m_raw_args A') - Suc i" using Suc.hyps(2) raw by simp
        show "Args_inv A'" using Args_inv_Parse_body [OF A'] Suc.prems by simp
      qed
      with A' il Suc.prems nh True raw dr overrun_at_end_Parse_body [OF A'] show ?thesis
        by (simp add: Parse_scan_step)
    next
      case False
      with il have last: "i + 1 = length (m_raw_args A)" by simp
      then have li: "last (m_raw_args A) = m_raw_args A ! i"
        using il by (metis add_diff_cancel_right' last_conv_nth length_0_conv not_less_zero)
      have d1: "drop (Suc i) (m_raw_args A) = []" using last by simp
      show ?thesis
      proof (cases "overrun_at_end A")
        case True
        then have "Parse_body A i = Inl OutOfBounds"
          using Parse_body_last_long [OF last nh] li by (auto simp: overrun_at_end_alt)
        with il Suc.prems nh True dr d1 show ?thesis
          by (simp add: Parse_scan_step)
      next
        case no: False
        have "\<exists>A'. Parse_body A i = Inr A'"
        proof (cases "Parse_body A i")
          case (Inl f)
          from Parse_body_fault [OF il Inl] nh no li show ?thesis
            by (auto simp: overrun_at_end_alt)
        next
          case (Inr A')
          then show ?thesis by blast
        qed
        then obtain A' where A': "Parse_body A i = Inr A'" by blast
        have "Parse_scan A' (Suc i) = Inr A'"
          using Parse_scan_end [of A' "Suc i"] Args_inv_Parse_body [OF A'] Suc.prems
            Parse_body_fields [OF A'] last by simp
        with A' il Suc.prems no show ?thesis
          by (simp add: Parse_scan_step)
      qed
    qed
  qed
qed

lemma Parse_fault_of_scan:
  "(Parse A = Inl OutOfBounds) = (Parse_scan A 0 = Inl OutOfBounds)"
proof (cases "Parse_scan A 0")
  case (Inl f)
  then show ?thesis by (simp add: Parse_def)
next
  case (Inr A1)
  show ?thesis
  proof (cases "find (\<lambda>a. IsRequired a \<and> GetValue a = None) (m_args A1)")
    case None
    with Inr show ?thesis by (simp add: Parse_def Parse_required_find)
  next
    case (Some a)
    with Inr show ?thesis
      by (cases "m_terminateBy A1") (simp_all add: Parse_def Parse_required_find Terminate_def)
  qed
qed

subsection \<open>Two runs of the scan\<close>

lemma absorbed_same_fields:
  assumes "absorbed t x y"
  shows "GetLong y = GetLong x" "GetShort y = GetShort x"
    "IsExpectingValue y = IsExpectingValue x" "IsOption y = IsOption x"
  using assms descriptor_fields [of x y] by (simp_all add: absorbed_def)

lemma absorbed_SetValue: "absorbed t x y \<Longrightarrow> absorbed t (SetValue v x) (SetValue v y)"
  by (simp add: absorbed_def) (simp add: SetValue_def)

lemma absorbed_SetGiven: "absorbed t x y \<Longrightarrow> absorbed t (SetGiven b x) (SetGiven b y)"
  by (simp add: absorbed_def) (simp add: SetGiven_def)

lemma absorbed_IsOption_SetValue [simp]: "IsOption (SetValue v x) = IsOption x"
  by (simp add: Argument_defs)

lemma ReadLongArg_loop_absorbed:
  "absorbed_list ts xs ys \<Longrightarrow> ReadLongArg_loop raw i n xs = Inr xs' \<Longrightarrow>
     \<exists>ys'. ReadLongArg_loop raw i n ys = Inr ys' \<and> absorbed_list ts xs' ys'"
proof (induction ts xs ys arbitrary: xs' rule: absorbed_list.induct)
  case 1
  then show ?case by simp
next
  case (2 t ts x xs y ys)
  from "2.prems" have a: "absorbed t x y" and l: "absorbed_list ts xs ys" by simp_all
  from "2.prems"(2) obtain r where r: "ReadLongArg_loop raw i n xs = Inr r"
    by (auto split: if_splits sum.splits)
  from "2.IH" [OF l r] obtain s where s: "ReadLongArg_loop raw i n ys = Inr s"
    and rs: "absorbed_list ts r s" by blast
  from "2.prems"(2) r s rs a absorbed_same_fields [OF a] show ?case
    by (auto simp: raw_at_def absorbed_SetValue absorbed_SetGiven split: if_splits)
qed simp_all

lemma ReadShortArg_loop_absorbed:
  "absorbed_list ts xs ys \<Longrightarrow> ReadShortArg_loop raw i c xs = Inr xs' \<Longrightarrow>
     \<exists>ys'. ReadShortArg_loop raw i c ys = Inr ys' \<and> absorbed_list ts xs' ys'"
proof (induction ts xs ys arbitrary: xs' rule: absorbed_list.induct)
  case 1
  then show ?case by simp
next
  case (2 t ts x xs y ys)
  from "2.prems" have a: "absorbed t x y" and l: "absorbed_list ts xs ys" by simp_all
  obtain r where r: "ReadShortArg_loop raw i c xs = Inr r"
    using ReadShortArg_loop_total by blast
  from "2.IH" [OF l r] obtain s where s: "ReadShortArg_loop raw i c ys = Inr s"
    and rs: "absorbed_list ts r s" by blast
  from "2.prems" r s rs a absorbed_same_fields [OF a] show ?case
    by (auto simp: raw_at_def absorbed_SetValue absorbed_SetGiven split: if_splits)
qed simp_all

lemma Parse_body_absorbed:
  assumes "Parse_body A i = Inr A'" "absorbed_list ts (m_args A) bs"
  shows "\<exists>bs'. Parse_body (A\<lparr>m_args := bs\<rparr>) i = Inr (A'\<lparr>m_args := bs'\<rparr>)
               \<and> absorbed_list ts (m_args A') bs'"
proof -
  have i: "i < length (m_raw_args A)"
    using assms by (auto simp: Parse_body_def raw_at_def split: if_splits)
  have i': "i < length (m_raw_args (A\<lparr>m_args := bs\<rparr>))" using i by simp
  let ?tok = "m_raw_args A ! i"
  have A': "A' = A\<lparr>m_args := m_args A'\<rparr>" using Parse_body_Inr(1) [OF assms(1)] .
  consider (long) "\<not> shows_help ?tok" "starts_with ?tok ''--'' \<and> drop 2 ?tok \<noteq> []"
    | (short) "\<not> shows_help ?tok" "\<not> (starts_with ?tok ''--'' \<and> drop 2 ?tok \<noteq> [])"
        "\<not> starts_with ?tok ''--'' \<and> starts_with ?tok ''-'' \<and> 2 \<le> length ?tok
              \<and> ?tok ! 1 \<noteq> CHR 0x00"
    | (none) "\<not> shows_help ?tok" "\<not> (starts_with ?tok ''--'' \<and> drop 2 ?tok \<noteq> [])"
        "\<not> (\<not> starts_with ?tok ''--'' \<and> starts_with ?tok ''-'' \<and> 2 \<le> length ?tok
              \<and> ?tok ! 1 \<noteq> CHR 0x00)"
    | (hlp) "shows_help ?tok"
    by blast
  then show ?thesis
  proof cases
    case long
    with assms(1) obtain xs' where x: "ReadLongArg_loop (m_raw_args A) i (drop 2 ?tok) (m_args A) = Inr xs'"
      and e: "A' = A\<lparr>m_args := xs'\<rparr>"
      by (auto simp: Parse_body_unfold [OF i] Let_def split: sum.splits)
    from ReadLongArg_loop_absorbed [OF assms(2) x] obtain ys' where
      y: "ReadLongArg_loop (m_raw_args A) i (drop 2 ?tok) bs = Inr ys'"
      and a: "absorbed_list ts xs' ys'" by blast
    from long y a e show ?thesis
      by (intro exI [of _ ys']) (simp add: Parse_body_unfold [OF i'] Let_def)
  next
    case short
    with assms(1) obtain xs' where x: "ReadShortArg_loop (m_raw_args A) i (?tok ! 1) (m_args A) = Inr xs'"
      and e: "A' = A\<lparr>m_args := xs'\<rparr>"
      by (auto simp: Parse_body_unfold [OF i] Let_def split: sum.splits)
    from ReadShortArg_loop_absorbed [OF assms(2) x] obtain ys' where
      y: "ReadShortArg_loop (m_raw_args A) i (?tok ! 1) bs = Inr ys'"
      and a: "absorbed_list ts xs' ys'" by blast
    from short y a e show ?thesis
      by (intro exI [of _ ys']) (simp add: Parse_body_unfold [OF i'] Let_def)
  next
    case none
    with assms(1) have e: "A' = A"
      by (auto simp: Parse_body_unfold [OF i] Let_def)
    from none e assms(2) show ?thesis
      by (intro exI [of _ bs]) (auto simp: Parse_body_unfold [OF i'] Let_def)
  next
    case hlp
    with assms(1) show ?thesis
      by (simp add: Parse_body_unfold [OF i])
  qed
qed

lemma Parse_scan_absorbed:
  "Parse_scan A i = Inr A' \<Longrightarrow> absorbed_list ts (m_args A) bs \<Longrightarrow>
     \<exists>bs'. Parse_scan (A\<lparr>m_args := bs\<rparr>) i = Inr (A'\<lparr>m_args := bs'\<rparr>)
            \<and> absorbed_list ts (m_args A') bs'"
proof (induction A i arbitrary: bs rule: Parse_scan.induct)
  case (1 A i)
  show ?case
  proof (cases "int i < m_num_args A")
    case True
    with "1.prems" obtain A1 where b: "Parse_body A i = Inr A1"
      and s: "Parse_scan A1 (Suc i) = Inr A'"
      by (subst (asm) Parse_scan.simps) (auto split: sum.splits)
    from Parse_body_absorbed [OF b "1.prems"(2)] obtain bs1 where
      b1: "Parse_body (A\<lparr>m_args := bs\<rparr>) i = Inr (A1\<lparr>m_args := bs1\<rparr>)"
      and a1: "absorbed_list ts (m_args A1) bs1" by blast
    from "1.IH" [OF True b s a1] obtain bs' where
      s1: "Parse_scan (A1\<lparr>m_args := bs1\<rparr>) (Suc i) = Inr (A'\<lparr>m_args := bs'\<rparr>)"
      and a': "absorbed_list ts (m_args A') bs'" by blast
    have "Parse_scan (A\<lparr>m_args := bs\<rparr>) i = Inr (A'\<lparr>m_args := bs'\<rparr>)"
      using True b1 s1 by (subst Parse_scan.simps) simp
    with a' show ?thesis by blast
  next
    case False
    with "1.prems" have "A' = A" by (subst (asm) Parse_scan.simps) simp
    moreover have "Parse_scan (A\<lparr>m_args := bs\<rparr>) i = Inr (A\<lparr>m_args := bs\<rparr>)"
      using False by (subst Parse_scan.simps) simp
    ultimately show ?thesis using "1.prems"(2) by blast
  qed
qed

lemma absorbed_list_start:
  "map descriptor xs = map descriptor ts \<Longrightarrow> absorbed_list ts xs ts"
proof (induction ts arbitrary: xs)
  case Nil
  then show ?case by simp
next
  case (Cons t ts)
  then show ?case by (cases xs) (auto simp: absorbed_def)
qed

lemma absorbed_list_end: "absorbed_list ts ts ys \<Longrightarrow> ys = ts"
proof (induction ts arbitrary: ys)
  case Nil
  then show ?case by (cases ys) simp_all
next
  case (Cons t ts)
  then show ?case
    by (cases ys) (auto simp: absorbed_def intro: Argument_eqI)
qed

section \<open>The claims\<close>

subsection \<open>Long forms shared by several arguments\<close>

text \<open>
  Claim C1, as the code has it. Let token \<open>i\<close> be \<open>--X\<close> with \<open>X\<close> not empty and not
  \<open>help\<close>, and let the read of token \<open>i + 1\<close> be in range or not needed. Then the body
  of the scan updates every registered argument whose long form is \<open>X\<close>, not only the
  first one: each of them that expects a value gets token \<open>i + 1\<close> as its value, each
  of them that is an option gets its given-flag set; the arguments with another long
  form are unchanged.
\<close>

theorem long_updates_every_match:
  assumes "i < length (m_raw_args A)" "m_raw_args A ! i = ''--'' @ X" "X \<noteq> []" "X \<noteq> ''help''"
    and "i + 1 < length (m_raw_args A)
         \<or> \<not> (\<exists>a \<in> set (m_args A). GetLong a = X \<and> IsExpectingValue a)"
  shows "Parse_body A i =
     Inr (A\<lparr>m_args :=
            map (\<lambda>arg.
                   if GetLong arg = X then
                     (let arg1 = (if IsExpectingValue arg
                                  then SetValue (m_raw_args A ! (i + 1)) arg else arg)
                      in if IsOption arg1 then SetGiven True arg1 else arg1)
                   else arg)
              (m_args A)\<rparr>)"
proof -
  have "\<not> shows_help (m_raw_args A ! i)"
    using assms by (simp add: shows_help_def starts_with_def)
  with assms have "Parse_body A i =
      Inr (A\<lparr>m_args := map (long_effect (m_raw_args A) i X) (m_args A)\<rparr>)"
    by (auto simp: Parse_body_unfold Let_def starts_with_def ReadLongArg_loop_map)
  moreover have "long_effect (m_raw_args A) i X =
      (\<lambda>arg.
         if GetLong arg = X then
           (let arg1 = (if IsExpectingValue arg
                        then SetValue (m_raw_args A ! (i + 1)) arg else arg)
            in if IsOption arg1 then SetGiven True arg1 else arg1)
         else arg)"
    by (simp add: long_effect_def fun_eq_iff)
  ultimately show ?thesis by simp
qed

theorem long_updates_every_match_witness:
  "Parse_body
     (Arg (SetLong ''x'' (WithName ''b''))
        (Arg (ExpectsValue (SetLong ''x'' (WithName ''a'')))
           (From 3 [''prog'', ''--x'', ''v''])))
     0
   = Inr (Arg (SetGiven True (SetLong ''x'' (WithName ''b'')))
            (Arg (SetValue ''v'' (ExpectsValue (SetLong ''x'' (WithName ''a''))))
               (From 3 [''prog'', ''--x'', ''v''])))"
proof -
  let ?A = "Arg (SetLong ''x'' (WithName ''b''))
              (Arg (ExpectsValue (SetLong ''x'' (WithName ''a'')))
                 (From 3 [''prog'', ''--x'', ''v'']))"
  have h1: "0 < length (m_raw_args ?A)" by (simp add: Args_defs)
  have h2: "m_raw_args ?A ! 0 = ''--'' @ ''x''" by (simp add: Args_defs)
  have h3: "''x'' \<noteq> []" "''x'' \<noteq> ''help''" by simp_all
  have h4: "0 + 1 < length (m_raw_args ?A)
            \<or> \<not> (\<exists>a \<in> set (m_args ?A). GetLong a = ''x'' \<and> IsExpectingValue a)"
    by (simp add: Args_defs)
  from long_updates_every_match [OF h1 h2 h3 h4] show ?thesis
    by (simp add: Args_defs Argument_defs)
qed

text \<open>
  Claim C1 as stated fails. Two options \<open>a\<close> and \<open>b\<close>, registered in this order, have
  the long form \<open>x\<close>; the only token is \<open>--x\<close>. The second one, \<open>b\<close>, is not given
  before the parse and is given after it.
\<close>

theorem long_first_match_only_counterexample:
  "GetLong (SetLong ''x'' (WithName ''a'')) = ''x''
   \<and> GetLong (SetLong ''x'' (WithName ''b'')) = ''x''
   \<and> \<not> Argument_IsGiven (SetLong ''x'' (WithName ''b''))
   \<and> Parse (Arg (SetLong ''x'' (WithName ''b''))
              (Arg (SetLong ''x'' (WithName ''a'')) (From 2 [''prog'', ''--x''])))
     = Inr (Arg (SetGiven True (SetLong ''x'' (WithName ''b'')))
              (Arg (SetGiven True (SetLong ''x'' (WithName ''a'')))
                 (From 2 [''prog'', ''--x''])))
   \<and> Argument_IsGiven (SetGiven True (SetLong ''x'' (WithName ''b'')))"
  by (simp add: parse_eval)

subsection \<open>The read past the last token\<close>

text \<open>
  Claim C2, as the code has it. \<open>Parse\<close> reads \<open>raw_args_\<close> out of range exactly when
  there is a token, no token shows help (none is \<open>--help\<close>, none starts with \<open>-h\<close>),
  and the last token is \<open>--X\<close> with \<open>X\<close> not empty and the long form of a registered
  argument that expects a value: then \<open>ReadLongArg\<close> takes token \<open>i + 1\<close> without a
  check of the bound, one past the end.
\<close>

theorem long_value_overrun:
  assumes "Args_inv A"
  shows "(Parse A = Inl OutOfBounds)
       = (m_raw_args A \<noteq> [] \<and> (\<forall>t \<in> set (m_raw_args A). \<not> shows_help t)
          \<and> (\<exists>X. last (m_raw_args A) = ''--'' @ X \<and> X \<noteq> []
                \<and> (\<exists>a \<in> set (m_args A). GetLong a = X \<and> IsExpectingValue a)))"
  using Parse_scan_overrun [OF assms, of 0]
  by (simp add: Parse_fault_of_scan overrun_at_end_def)

theorem long_value_overrun_witness:
  "Args_inv (Arg (ExpectsValue (SetLong ''name'' (WithName ''name'')))
               (From 3 [''prog'', ''-v'', ''--name'']))
   \<and> Parse (Arg (ExpectsValue (SetLong ''name'' (WithName ''name'')))
              (From 3 [''prog'', ''-v'', ''--name'']))
     = Inl OutOfBounds"
proof -
  let ?a = "ExpectsValue (SetLong ''name'' (WithName ''name''))"
  let ?A = "Arg ?a (From 3 [''prog'', ''-v'', ''--name''])"
  have inv: "Args_inv ?A" by (simp add: Args_inv_def Args_defs)
  have r: "m_raw_args ?A \<noteq> [] \<and> (\<forall>t \<in> set (m_raw_args ?A). \<not> shows_help t)
        \<and> (\<exists>X. last (m_raw_args ?A) = ''--'' @ X \<and> X \<noteq> []
              \<and> (\<exists>a \<in> set (m_args ?A). GetLong a = X \<and> IsExpectingValue a))"
    by (simp add: Args_defs Argument_defs shows_help_def starts_with_def)
  have p: "Parse ?A = Inl OutOfBounds"
    by (rule iffD2 [OF long_value_overrun [OF inv] r])
  show ?thesis by (rule conjI [OF inv p])
qed

text \<open>
  Claim C2 as stated fails. The last token is \<open>--name\<close>, the long form of a registered
  argument that expects a value, and the token before it is \<open>-h\<close>: the scan shows help
  and exits at the first token, the last token is never read and nothing is read out of
  range.
\<close>

theorem help_before_overrun_counterexample:
  "last (m_raw_args (Arg (ExpectsValue (SetLong ''name'' (WithName ''name'')))
                       (From 3 [''prog'', ''-h'', ''--name''])))
     = ''--'' @ ''name''
   \<and> GetLong (ExpectsValue (SetLong ''name'' (WithName ''name''))) = ''name''
   \<and> IsExpectingValue (ExpectsValue (SetLong ''name'' (WithName ''name'')))
   \<and> Parse (Arg (ExpectsValue (SetLong ''name'' (WithName ''name'')))
              (From 3 [''prog'', ''-h'', ''--name'']))
     = Inl (HelpExit help_text)
   \<and> Parse (Arg (ExpectsValue (SetLong ''name'' (WithName ''name'')))
              (From 3 [''prog'', ''-h'', ''--name'']))
     \<noteq> Inl OutOfBounds"
  by (simp add: parse_eval)

subsection \<open>The check of the required arguments\<close>

text \<open>
  Claim C3, as the code has it. Let the scan complete and leave the state \<open>A1\<close>. If no
  registered argument is required and without a value, \<open>Parse\<close> returns \<open>A1\<close>. If there
  is one, \<open>Parse\<close> does not return: its outcome is that of the one call of \<open>Terminate\<close>
  on the first such argument in registration order, and under the policy \<open>Exit\<close> the
  diagnostic carries the name of that argument. Required arguments without a value that
  are registered after it are not reported.
\<close>

theorem required_check_first_missing:
  assumes "Parse_scan A 0 = Inr A1"
  shows "(find (\<lambda>a. IsRequired a \<and> GetValue a = None) (m_args A1) = None
            \<longrightarrow> Parse A = Inr A1)
       \<and> (\<forall>a. find (\<lambda>a. IsRequired a \<and> GetValue a = None) (m_args A1) = Some a
            \<longrightarrow> (\<exists>f. Terminate A1 a = Inl f \<and> Parse A = Inl f)
               \<and> (m_terminateBy A = Exit
                    \<longrightarrow> Parse A = Inl (FailureExit
                          (''Error: Missing required value for argument '' @ [CHR 0x27]
                           @ GetName a @ [CHR 0x27, CHR 0x0A]))))"
proof -
  have t: "m_terminateBy A1 = m_terminateBy A"
    using Parse_scan_fields [OF assms] by simp
  show ?thesis
    using assms t Terminate_never_returns [of A1]
    by (auto simp: Parse_def Parse_required_find Terminate_def split: TerminationType.splits)
qed

theorem required_check_first_missing_witness:
  "Parse_scan (Arg (Required (SetLong ''b'' (WithName ''b'')))
                 (Arg (Required (SetLong ''a'' (WithName ''a''))) (From 1 [''prog''])))
     0
     = Inr (Arg (Required (SetLong ''b'' (WithName ''b'')))
              (Arg (Required (SetLong ''a'' (WithName ''a''))) (From 1 [''prog''])))
   \<and> find (\<lambda>a. IsRequired a \<and> GetValue a = None)
        (m_args (Arg (Required (SetLong ''b'' (WithName ''b'')))
                   (Arg (Required (SetLong ''a'' (WithName ''a''))) (From 1 [''prog'']))))
     = Some (Required (SetLong ''a'' (WithName ''a'')))
   \<and> m_terminateBy (Arg (Required (SetLong ''b'' (WithName ''b'')))
                      (Arg (Required (SetLong ''a'' (WithName ''a''))) (From 1 [''prog''])))
     = Exit
   \<and> Parse (Arg (Required (SetLong ''b'' (WithName ''b'')))
              (Arg (Required (SetLong ''a'' (WithName ''a''))) (From 1 [''prog''])))
     = Inl (FailureExit (''Error: Missing required value for argument '' @ [CHR 0x27]
                           @ ''a'' @ [CHR 0x27, CHR 0x0A]))
   \<and> Parse_scan (Arg (SetLong ''v'' (WithName ''v'')) (From 2 [''prog'', ''--v''])) 0
     = Inr (Arg (SetGiven True (SetLong ''v'' (WithName ''v''))) (From 2 [''prog'', ''--v'']))
   \<and> find (\<lambda>a. IsRequired a \<and> GetValue a = None)
        (m_args (Arg (SetGiven True (SetLong ''v'' (WithName ''v'')))
                   (From 2 [''prog'', ''--v''])))
     = None
   \<and> Parse (Arg (SetLong ''v'' (WithName ''v'')) (From 2 [''prog'', ''--v'']))
     = Inr (Arg (SetGiven True (SetLong ''v'' (WithName ''v''))) (From 2 [''prog'', ''--v'']))"
proof -
  let ?a = "Required (SetLong ''a'' (WithName ''a''))"
  let ?A = "Arg (Required (SetLong ''b'' (WithName ''b''))) (Arg ?a (From 1 [''prog'']))"
  let ?B = "Arg (SetLong ''v'' (WithName ''v'')) (From 2 [''prog'', ''--v''])"
  let ?B1 = "Arg (SetGiven True (SetLong ''v'' (WithName ''v''))) (From 2 [''prog'', ''--v''])"
  have s: "Parse_scan ?A 0 = Inr ?A"
    by (simp add: Parse_scan.simps Args_defs)
  have f: "find (\<lambda>a. IsRequired a \<and> GetValue a = None) (m_args ?A) = Some ?a"
    by (simp add: Args_defs Argument_defs)
  have e: "m_terminateBy ?A = Exit"
    by (simp add: Args_defs)
  have n: "GetName ?a = ''a''"
    by (simp add: Argument_defs)
  from required_check_first_missing [OF s] f e n
  have p: "Parse ?A = Inl (FailureExit (''Error: Missing required value for argument ''
              @ [CHR 0x27] @ ''a'' @ [CHR 0x27, CHR 0x0A]))"
    by simp
  have s': "Parse_scan ?B 0 = Inr ?B1"
    by (simp add: parse_eval)
  have f': "find (\<lambda>a. IsRequired a \<and> GetValue a = None) (m_args ?B1) = None"
    by (simp add: Args_defs Argument_defs)
  from required_check_first_missing [OF s'] f' have p': "Parse ?B = Inr ?B1"
    by blast
  from s f e p s' f' p' show ?thesis by blast
qed

text \<open>
  Claim C3 as stated fails. Two arguments \<open>a\<close> and \<open>b\<close> are required and registered in
  this order, and there is no token. \<open>b\<close> is required and has no value, but the one
  termination of the parse names \<open>a\<close>; the termination that would name \<open>b\<close> is another
  one.
\<close>

theorem required_check_counterexample:
  "IsRequired (Required (SetLong ''b'' (WithName ''b'')))
   \<and> GetValue (Required (SetLong ''b'' (WithName ''b''))) = None
   \<and> Parse (Arg (Required (SetLong ''b'' (WithName ''b'')))
              (Arg (Required (SetLong ''a'' (WithName ''a''))) (From 1 [''prog''])))
     = Inl (FailureExit (''Error: Missing required value for argument '' @ [CHR 0x27]
                           @ ''a'' @ [CHR 0x27, CHR 0x0A]))
   \<and> Terminate (Arg (Required (SetLong ''b'' (WithName ''b'')))
                  (Arg (Required (SetLong ''a'' (WithName ''a''))) (From 1 [''prog''])))
       (Required (SetLong ''b'' (WithName ''b'')))
     = Inl (FailureExit (''Error: Missing required value for argument '' @ [CHR 0x27]
                           @ ''b'' @ [CHR 0x27, CHR 0x0A]))
   \<and> Parse (Arg (Required (SetLong ''b'' (WithName ''b'')))
              (Arg (Required (SetLong ''a'' (WithName ''a''))) (From 1 [''prog''])))
     \<noteq> Inl (FailureExit (''Error: Missing required value for argument '' @ [CHR 0x27]
                           @ ''b'' @ [CHR 0x27, CHR 0x0A]))"
  by (simp add: parse_eval)

subsection \<open>Help ends the parse\<close>

text \<open>
  Claim C4. When \<open>--help\<close> or \<open>-h\<close> is among the tokens, whatever arguments are
  registered, \<open>Parse\<close> ends in the help display and the exit that follows it. No token
  after it is read and the check of the required arguments does not run: the outcome is
  the help exit, not a termination for a missing value and not a read out of range.
\<close>

theorem help_is_terminal:
  assumes "Args_inv A"
    and "''--help'' \<in> set (m_raw_args A) \<or> ''-h'' \<in> set (m_raw_args A)"
  shows "Parse A = Inl (HelpExit help_text)"
proof -
  from assms(2) obtain t where t: "t \<in> set (m_raw_args A)" "shows_help t"
    by (auto simp: shows_help_def starts_with_def)
  then obtain k where "k < length (m_raw_args A)" "m_raw_args A ! k = t"
    by (auto simp: in_set_conv_nth)
  with t assms(1) have "Parse_scan A 0 = Inl (HelpExit help_text)"
    using Parse_scan_help [of A 0 k] by simp
  then show ?thesis by (simp add: Parse_def)
qed

theorem help_is_terminal_witness:
  "Args_inv (Arg (Required (ExpectsValue (SetLong ''out'' (WithName ''out''))))
               (From 4 [''prog'', ''-v'', ''--help'', ''--out'']))
   \<and> ''--help'' \<in> set (m_raw_args
         (Arg (Required (ExpectsValue (SetLong ''out'' (WithName ''out''))))
            (From 4 [''prog'', ''-v'', ''--help'', ''--out''])))
   \<and> Parse (Arg (Required (ExpectsValue (SetLong ''out'' (WithName ''out''))))
              (From 4 [''prog'', ''-v'', ''--help'', ''--out'']))
     = Inl (HelpExit help_text)
   \<and> Args_inv (Arg (Required (ExpectsValue (SetLong ''out'' (WithName ''out''))))
               (From 3 [''prog'', ''-h'', ''--out'']))
   \<and> ''-h'' \<in> set (m_raw_args
         (Arg (Required (ExpectsValue (SetLong ''out'' (WithName ''out''))))
            (From 3 [''prog'', ''-h'', ''--out''])))
   \<and> Parse (Arg (Required (ExpectsValue (SetLong ''out'' (WithName ''out''))))
              (From 3 [''prog'', ''-h'', ''--out'']))
     = Inl (HelpExit help_text)"
proof -
  let ?a = "Required (ExpectsValue (SetLong ''out'' (WithName ''out'')))"
  let ?A = "Arg ?a (From 4 [''prog'', ''-v'', ''--help'', ''--out''])"
  let ?B = "Arg ?a (From 3 [''prog'', ''-h'', ''--out''])"
  have iA: "Args_inv ?A" and iB: "Args_inv ?B"
    by (simp_all add: Args_inv_def Args_defs)
  have hA: "''--help'' \<in> set (m_raw_args ?A)" and hB: "''-h'' \<in> set (m_raw_args ?B)"
    by (simp_all add: Args_defs)
  from help_is_terminal [OF iA] hA have pA: "Parse ?A = Inl (HelpExit help_text)"
    by blast
  from help_is_terminal [OF iB] hB have pB: "Parse ?B = Inl (HelpExit help_text)"
    by blast
  from iA hA pA iB hB pB show ?thesis by blast
qed

subsection \<open>A token taken as a value is scanned as well\<close>

text \<open>
  Claim C5. When the body of the scan at token \<open>i\<close> stores token \<open>i + 1\<close> as the value
  of an argument, the scan goes on at index \<open>i + 1\<close>: the rest of the scan is the body
  at token \<open>i + 1\<close> followed by the scan from \<open>i + 2\<close>. The body treats token \<open>i + 1\<close>
  by its leading characters as it treats any token: it goes to \<open>ReadLongArg\<close> when the
  token starts with two dashes, to \<open>ReadShortArg\<close> when it starts with one, and the scan
  ends in the help exit when the token shows help.
\<close>

theorem consumed_token_is_scanned_again:
  assumes "Args_inv A" "takes_next_as_value A i"
  shows "\<exists>A1. Parse_body A i = Inr A1
           \<and> list_ex (\<lambda>a. IsExpectingValue a \<and> m_value a = m_raw_args A ! (Suc i)) (m_args A1)
           \<and> Parse_scan A i =
               (case Parse_body A1 (Suc i) of
                  Inl f \<Rightarrow> Inl f
                | Inr A2 \<Rightarrow> Parse_scan A2 (Suc (Suc i)))
           \<and> (starts_with (m_raw_args A ! (Suc i)) ''--''
                \<longrightarrow> Parse_body A1 (Suc i) = ReadLongArg A1 (Suc i))
           \<and> (\<not> starts_with (m_raw_args A ! (Suc i)) ''--''
              \<and> starts_with (m_raw_args A ! (Suc i)) ''-''
                \<longrightarrow> Parse_body A1 (Suc i) = ReadShortArg A1 (Suc i))
           \<and> (shows_help (m_raw_args A ! (Suc i))
                \<longrightarrow> Parse_scan A i = Inl (HelpExit help_text))"
proof -
  let ?raw = "m_raw_args A"
  let ?tok = "?raw ! i"
  from assms(2) have i1: "i + 1 < length ?raw" and nh: "\<not> shows_help ?tok"
    by (simp_all add: takes_next_as_value_def Let_def)
  then have il: "i < length ?raw" by simp
  have "\<exists>as. Parse_body A i = Inr (A\<lparr>m_args := as\<rparr>)
          \<and> list_ex (\<lambda>a. IsExpectingValue a \<and> m_value a = ?raw ! (Suc i)) as"
  proof (cases "starts_with ?tok ''--''")
    case True
    with assms(2) have n: "drop 2 ?tok \<noteq> []"
      and ex: "list_ex (\<lambda>a. GetLong a = drop 2 ?tok \<and> IsExpectingValue a) (m_args A)"
      by (simp_all add: takes_next_as_value_def Let_def)
    have "list_ex (\<lambda>a. IsExpectingValue a \<and> m_value a = ?raw ! (Suc i))
            (map (long_effect ?raw i (drop 2 ?tok)) (m_args A))"
      by (rule list_ex_map_effect [OF ex]) (simp add: long_effect_def Let_def Argument_defs)
    with True n nh i1 show ?thesis
      by (intro exI [of _ "map (long_effect ?raw i (drop 2 ?tok)) (m_args A)"])
         (simp add: Parse_body_unfold [OF il] Let_def ReadLongArg_loop_map)
  next
    case False
    with assms(2) have c: "starts_with ?tok ''-'' \<and> 2 \<le> length ?tok \<and> ?tok ! 1 \<noteq> CHR 0x00"
      and ex: "list_ex (\<lambda>a. GetShort a = ?tok ! 1 \<and> IsExpectingValue a) (m_args A)"
      by (simp_all add: takes_next_as_value_def Let_def)
    have "list_ex (\<lambda>a. IsExpectingValue a \<and> m_value a = ?raw ! (Suc i))
            (map (short_effect ?raw i (?tok ! 1)) (m_args A))"
      by (rule list_ex_map_effect [OF ex]) (simp add: short_effect_def Let_def Argument_defs)
    with False c nh i1 show ?thesis
      by (intro exI [of _ "map (short_effect ?raw i (?tok ! 1)) (m_args A)"])
         (simp add: Parse_body_unfold [OF il] Let_def ReadShortArg_loop_map)
  qed
  then obtain as where b: "Parse_body A i = Inr (A\<lparr>m_args := as\<rparr>)"
    and v: "list_ex (\<lambda>a. IsExpectingValue a \<and> m_value a = ?raw ! (Suc i)) as" by blast
  let ?A1 = "A\<lparr>m_args := as\<rparr>"
  have inv1: "Args_inv ?A1" using assms(1) by (simp add: Args_inv_def)
  have i1': "Suc i < length (m_raw_args ?A1)" using i1 by simp
  have s: "Parse_scan A i =
               (case Parse_body ?A1 (Suc i) of
                  Inl f \<Rightarrow> Inl f
                | Inr A2 \<Rightarrow> Parse_scan A2 (Suc (Suc i)))"
    using Parse_scan_step [OF assms(1) il] b Parse_scan_step [OF inv1, of "Suc i"] i1
    by simp
  have l: "starts_with (?raw ! (Suc i)) ''--''
             \<longrightarrow> Parse_body ?A1 (Suc i) = ReadLongArg ?A1 (Suc i)"
    using i1 by (simp add: Parse_body_def raw_at_def)
  have sh: "\<not> starts_with (?raw ! (Suc i)) ''--'' \<and> starts_with (?raw ! (Suc i)) ''-''
             \<longrightarrow> Parse_body ?A1 (Suc i) = ReadShortArg ?A1 (Suc i)"
    using i1 by (simp add: Parse_body_def raw_at_def)
  have h: "shows_help (?raw ! (Suc i)) \<longrightarrow> Parse_scan A i = Inl (HelpExit help_text)"
    using s Parse_body_help [OF i1'] by simp
  from b v s l sh h show ?thesis by auto
qed

theorem consumed_token_is_scanned_again_witness:
  "Args_inv (Arg (ExpectsValue (SetLong ''name'' (WithName ''name'')))
               (From 3 [''prog'', ''--name'', ''--help'']))
   \<and> takes_next_as_value
       (Arg (ExpectsValue (SetLong ''name'' (WithName ''name'')))
          (From 3 [''prog'', ''--name'', ''--help''])) 0
   \<and> shows_help
       (m_raw_args (Arg (ExpectsValue (SetLong ''name'' (WithName ''name'')))
                      (From 3 [''prog'', ''--name'', ''--help''])) ! Suc 0)
   \<and> Parse_body
       (Arg (ExpectsValue (SetLong ''name'' (WithName ''name'')))
          (From 3 [''prog'', ''--name'', ''--help''])) 0
     = Inr (Arg (SetValue ''--help'' (ExpectsValue (SetLong ''name'' (WithName ''name''))))
              (From 3 [''prog'', ''--name'', ''--help'']))
   \<and> Parse_scan
       (Arg (ExpectsValue (SetLong ''name'' (WithName ''name'')))
          (From 3 [''prog'', ''--name'', ''--help''])) 0
     = Inl (HelpExit help_text)"
proof -
  let ?A = "Arg (ExpectsValue (SetLong ''name'' (WithName ''name'')))
              (From 3 [''prog'', ''--name'', ''--help''])"
  have inv: "Args_inv ?A" by (simp add: Args_inv_def Args_defs)
  have t: "takes_next_as_value ?A 0"
    by (simp add: takes_next_as_value_def shows_help_def starts_with_def Args_defs
          Argument_defs)
  have h: "shows_help (m_raw_args ?A ! Suc 0)"
    by (simp add: shows_help_def Args_defs)
  have b: "Parse_body ?A 0
     = Inr (Arg (SetValue ''--help'' (ExpectsValue (SetLong ''name'' (WithName ''name''))))
              (From 3 [''prog'', ''--name'', ''--help'']))"
    by (simp add: parse_eval)
  from consumed_token_is_scanned_again [OF inv t] h
  have "Parse_scan ?A 0 = Inl (HelpExit help_text)" by blast
  with inv t h b show ?thesis by blast
qed

subsection \<open>The short form without a following token\<close>

lemma ReadShortArg_loop_stop:
  assumes "\<not> i + 1 < length raw" "GetShort a = x" "IsExpectingValue a"
    "\<forall>b \<in> set pre. \<not> (GetShort b = x \<and> IsExpectingValue b)"
  shows "ReadShortArg_loop raw i x (pre @ a # post) =
     Inr (map (\<lambda>b. if GetShort b = x \<and> IsOption b then SetGiven True b else b) pre
          @ a # post)"
  using assms by (induction pre) (auto simp: raw_at_def)

text \<open>
  Claim C6, as the code has it. Let the last token be \<open>-x\<close> followed by anything, with
  \<open>x\<close> not \<open>h\<close>, and let \<open>a\<close> be the first registered argument with the short form \<open>x\<close>
  that expects a value. \<open>ReadShortArg\<close> compares \<open>i + 1\<close> with the size of \<open>raw_args_\<close>
  and returns at \<open>a\<close> without a read out of range: no value is set, and \<open>a\<close> and the
  arguments registered after it are unchanged. The options with the short form \<open>x\<close>
  registered before \<open>a\<close> have been visited by then, and their given-flag is set. When
  \<open>x\<close> is not a dash, this is what the body of the scan does at that token.
\<close>

theorem short_value_missing_at_end:
  assumes "i + 1 = length (m_raw_args A)" "m_raw_args A ! i = CHR ''-'' # x # rest"
    "x \<noteq> CHR ''h''" "x \<noteq> CHR 0x00"
    "m_args A = pre @ a # post" "GetShort a = x" "IsExpectingValue a"
    "\<forall>b \<in> set pre. \<not> (GetShort b = x \<and> IsExpectingValue b)"
  shows "ReadShortArg A i =
           Inr (A\<lparr>m_args :=
                  map (\<lambda>b. if GetShort b = x \<and> IsOption b then SetGiven True b else b) pre
                  @ a # post\<rparr>)
       \<and> (x \<noteq> CHR ''-'' \<longrightarrow> Parse_body A i = ReadShortArg A i)"
proof -
  have nb: "\<not> i + 1 < length (m_raw_args A)" using assms(1) by simp
  have il: "i < length (m_raw_args A)" using assms(1) by simp
  have "ReadShortArg A i =
           Inr (A\<lparr>m_args :=
                  map (\<lambda>b. if GetShort b = x \<and> IsOption b then SetGiven True b else b) pre
                  @ a # post\<rparr>)"
    using assms il ReadShortArg_loop_stop [OF nb assms(6,7,8), of post]
    by (simp add: ReadShortArg_def raw_at_def char_at_def ShowHelp_def)
  moreover have "x \<noteq> CHR ''-'' \<longrightarrow> Parse_body A i = ReadShortArg A i"
    using assms il by (simp add: Parse_body_def raw_at_def starts_with_def)
  ultimately show ?thesis by blast
qed

theorem short_value_missing_at_end_witness:
  "ReadShortArg
     (Arg (ExpectsValue (SetShort CHR ''x'' (WithName ''name'')))
        (Arg (SetShort CHR ''x'' (WithName ''verbose'')) (From 2 [''prog'', ''-x''])))
     0
   = Inr (Arg (ExpectsValue (SetShort CHR ''x'' (WithName ''name'')))
            (Arg (SetGiven True (SetShort CHR ''x'' (WithName ''verbose'')))
               (From 2 [''prog'', ''-x''])))
   \<and> Parse_body
       (Arg (ExpectsValue (SetShort CHR ''x'' (WithName ''name'')))
          (Arg (SetShort CHR ''x'' (WithName ''verbose'')) (From 2 [''prog'', ''-x''])))
       0
     = Inr (Arg (ExpectsValue (SetShort CHR ''x'' (WithName ''name'')))
              (Arg (SetGiven True (SetShort CHR ''x'' (WithName ''verbose'')))
                 (From 2 [''prog'', ''-x''])))"
proof -
  let ?v = "SetShort CHR ''x'' (WithName ''verbose'')"
  let ?n = "ExpectsValue (SetShort CHR ''x'' (WithName ''name''))"
  let ?A = "Arg ?n (Arg ?v (From 2 [''prog'', ''-x'']))"
  have h1: "0 + 1 = length (m_raw_args ?A)" by (simp add: Args_defs)
  have h2: "m_raw_args ?A ! 0 = CHR ''-'' # CHR ''x'' # []" by (simp add: Args_defs)
  have h3: "CHR ''x'' \<noteq> CHR ''h''" "CHR ''x'' \<noteq> CHR 0x00" by simp_all
  have h4: "m_args ?A = [?v] @ ?n # []" by (simp add: Args_defs)
  have h5: "GetShort ?n = CHR ''x''" "IsExpectingValue ?n" by (simp_all add: Argument_defs)
  have h6: "\<forall>b \<in> set [?v]. \<not> (GetShort b = CHR ''x'' \<and> IsExpectingValue b)"
    by (simp add: Argument_defs)
  have h7: "CHR ''x'' \<noteq> CHR ''-''" by simp
  from short_value_missing_at_end [OF h1 h2 h3 h4 h5 h6] h7 show ?thesis
    by (simp add: Args_defs Argument_defs)
qed

text \<open>
  Claim C6 as stated fails. The option \<open>verbose\<close> and the value-bearing argument \<open>name\<close>
  are registered in this order with the short form \<open>x\<close>, and the only token is \<open>-x\<close>.
  \<open>name\<close> expects a value and there is no next token, yet the token sets a given-flag:
  that of \<open>verbose\<close>, which is not given before the parse and is given after it.
\<close>

theorem short_value_missing_counterexample:
  "last (m_raw_args
          (Arg (ExpectsValue (SetShort CHR ''x'' (WithName ''name'')))
             (Arg (SetShort CHR ''x'' (WithName ''verbose'')) (From 2 [''prog'', ''-x'']))))
     = ''-x''
   \<and> GetShort (ExpectsValue (SetShort CHR ''x'' (WithName ''name''))) = CHR ''x''
   \<and> IsExpectingValue (ExpectsValue (SetShort CHR ''x'' (WithName ''name'')))
   \<and> \<not> Argument_IsGiven (SetShort CHR ''x'' (WithName ''verbose''))
   \<and> Parse (Arg (ExpectsValue (SetShort CHR ''x'' (WithName ''name'')))
              (Arg (SetShort CHR ''x'' (WithName ''verbose'')) (From 2 [''prog'', ''-x''])))
     = Inr (Arg (ExpectsValue (SetShort CHR ''x'' (WithName ''name'')))
              (Arg (SetGiven True (SetShort CHR ''x'' (WithName ''verbose'')))
                 (From 2 [''prog'', ''-x''])))
   \<and> Argument_IsGiven (SetGiven True (SetShort CHR ''x'' (WithName ''verbose'')))"
  by (simp add: parse_eval)

subsection \<open>What the thrown value carries\<close>

text \<open>
  Claim C7 is not what the code does. Under the policy \<open>Exception\<close>, a parse with the
  required argument \<open>out\<close> missing and a parse with the required argument \<open>in\<close> missing
  throw the same value, the string literal \<open>Exception\<close>: the thrown value does not
  carry the name of the argument.
\<close>

theorem Exception_carries_no_name:
  "Parse (SetTerminationType Exception
            (Arg (Required (SetLong ''out'' (WithName ''out''))) (From 1 [''prog''])))
     = Inl (Thrown ''Exception'')
   \<and> Parse (SetTerminationType Exception
            (Arg (Required (SetLong ''in'' (WithName ''in''))) (From 1 [''prog''])))
     = Inl (Thrown ''Exception'')"
  by (simp add: Parse_def Parse_scan.simps Terminate_def Argument_defs Args_defs)

subsection \<open>The query \<open>IsGiven\<close>\<close>

lemma IsGiven_loop_find:
  "IsGiven_loop as n =
     (case find (\<lambda>a. GetName a = n) as of
        None \<Rightarrow> False
      | Some a \<Rightarrow> IsOption a \<and> Argument_IsGiven a)"
  by (induction as) auto

text \<open>
  Claim C8. \<open>IsGiven A n\<close> looks at the first registered argument named \<open>n\<close> and at no
  other: it is true exactly when that argument is an option and its given-flag is set.
  So it is false when no registered argument is named \<open>n\<close>, and false when the first one
  named \<open>n\<close> is not an option, whatever value or given-flag that argument holds.
\<close>

theorem IsGiven_first_named:
  "IsGiven A n =
     (case find (\<lambda>a. GetName a = n) (m_args A) of
        None \<Rightarrow> False
      | Some a \<Rightarrow> IsOption a \<and> Argument_IsGiven a)
   \<and> (n \<notin> set (map GetName (m_args A)) \<longrightarrow> \<not> IsGiven A n)
   \<and> (\<forall>a. find (\<lambda>a. GetName a = n) (m_args A) = Some a \<and> \<not> IsOption a
          \<longrightarrow> \<not> IsGiven A n)"
proof (intro conjI)
  show eq: "IsGiven A n =
     (case find (\<lambda>a. GetName a = n) (m_args A) of
        None \<Rightarrow> False
      | Some a \<Rightarrow> IsOption a \<and> Argument_IsGiven a)"
    by (simp add: IsGiven_def IsGiven_loop_find)
  show "n \<notin> set (map GetName (m_args A)) \<longrightarrow> \<not> IsGiven A n"
  proof
    assume "n \<notin> set (map GetName (m_args A))"
    then have "find (\<lambda>a. GetName a = n) (m_args A) = None"
      by (auto simp: find_None_iff)
    with eq show "\<not> IsGiven A n" by simp
  qed
  show "\<forall>a. find (\<lambda>a. GetName a = n) (m_args A) = Some a \<and> \<not> IsOption a
          \<longrightarrow> \<not> IsGiven A n"
    using eq by auto
qed

theorem IsGiven_first_named_witness:
  "find (\<lambda>a. GetName a = ''name'')
      (m_args (Arg (SetGiven True (SetValue ''Alice'' (ExpectsValue (WithName ''name''))))
                 (From 1 [''prog''])))
     = Some (SetGiven True (SetValue ''Alice'' (ExpectsValue (WithName ''name''))))
   \<and> \<not> IsOption (SetGiven True (SetValue ''Alice'' (ExpectsValue (WithName ''name''))))
   \<and> \<not> IsGiven (Arg (SetGiven True (SetValue ''Alice'' (ExpectsValue (WithName ''name''))))
                 (From 1 [''prog''])) ''name''
   \<and> ''other'' \<notin> set (map GetName
         (m_args (Arg (SetGiven True (SetValue ''Alice'' (ExpectsValue (WithName ''name''))))
                    (From 1 [''prog'']))))
   \<and> \<not> IsGiven (Arg (SetGiven True (SetValue ''Alice'' (ExpectsValue (WithName ''name''))))
                 (From 1 [''prog''])) ''other''"
proof -
  let ?a = "SetGiven True (SetValue ''Alice'' (ExpectsValue (WithName ''name'')))"
  let ?A = "Arg ?a (From 1 [''prog''])"
  have f: "find (\<lambda>a. GetName a = ''name'') (m_args ?A) = Some ?a"
    by (simp add: Argument_defs Args_defs)
  have o: "\<not> IsOption ?a"
    by (simp add: Argument_defs)
  have n: "''other'' \<notin> set (map GetName (m_args ?A))"
    by (simp add: Argument_defs Args_defs)
  from IsGiven_first_named [of ?A "''name''"] f o have "\<not> IsGiven ?A ''name''"
    by blast
  moreover from IsGiven_first_named [of ?A "''other''"] n have "\<not> IsGiven ?A ''other''"
    by blast
  ultimately show ?thesis using f o n by blast
qed

subsection \<open>Options and value-bearing arguments\<close>

lemma apply_ops_snoc: "apply_ops a (ops @ [x]) = apply_op (apply_ops a ops) x"
  by (simp add: apply_ops_def)

lemma apply_op_flags:
  "IsExpectingValue (apply_op a x) = (IsExpectingValue a \<or> x = OpExpectsValue)"
  "IsOption (apply_op a x) = (IsOption a \<and> x \<noteq> OpExpectsValue)"
  by (cases x; simp add: IsExpectingValue_def IsOption_def SetShort_def SetLong_def
        SetValue_def ExpectsValue_def Required_def SetGiven_def)+

lemma apply_ops_flags:
  "IsExpectingValue (apply_ops a ops) = (IsExpectingValue a \<or> OpExpectsValue \<in> set ops)"
  "IsOption (apply_ops a ops) = (IsOption a \<and> OpExpectsValue \<notin> set ops)"
  by (induction ops rule: rev_induct; auto simp: apply_ops_snoc apply_op_flags apply_ops_def)+

text \<open>
  Claim C9. A new argument is an option and expects no value. \<open>ExpectsValue\<close> sets the
  expectation and clears the option flag at once. After any sequence of public
  operations on a new argument, an argument that expects a value is not an option; and
  once \<open>ExpectsValue\<close> is among the operations, whatever operations follow, the argument
  still expects a value and is still not an option.
\<close>

theorem ExpectsValue_excludes_option:
  "IsOption (WithName n) \<and> \<not> IsExpectingValue (WithName n)
   \<and> IsExpectingValue (ExpectsValue a) \<and> \<not> IsOption (ExpectsValue a)
   \<and> (IsExpectingValue (apply_ops (WithName n) ops)
        \<longrightarrow> \<not> IsOption (apply_ops (WithName n) ops))
   \<and> (OpExpectsValue \<in> set ops
        \<longrightarrow> IsExpectingValue (apply_ops (WithName n) (ops @ later))
            \<and> \<not> IsOption (apply_ops (WithName n) (ops @ later)))"
  by (simp add: apply_ops_flags)
     (simp add: WithName_def ExpectsValue_def IsOption_def IsExpectingValue_def)

theorem ExpectsValue_excludes_option_witness:
  "OpExpectsValue \<in> set [OpSetLong ''name'', OpExpectsValue]
   \<and> IsExpectingValue (apply_ops (WithName ''name'')
         ([OpSetLong ''name'', OpExpectsValue] @ [OpSetValue ''v'', OpSetGiven True]))
   \<and> \<not> IsOption (apply_ops (WithName ''name'')
         ([OpSetLong ''name'', OpExpectsValue] @ [OpSetValue ''v'', OpSetGiven True]))"
  using ExpectsValue_excludes_option
    [of "''name''" "WithName ''name''" "[OpSetLong ''name'', OpExpectsValue]"
        "[OpSetValue ''v'', OpSetGiven True]"]
  by simp

subsection \<open>A second parse\<close>

lemma Parse_scan_idem:
  assumes "Parse_scan A 0 = Inr A'"
  shows "Parse_scan A' 0 = Inr A'"
proof -
  from Parse_scan_Inr [OF assms] have e: "A' = A\<lparr>m_args := m_args A'\<rparr>"
    and d: "map descriptor (m_args A') = map descriptor (m_args A)" by simp_all
  have "absorbed_list (m_args A') (m_args A) (m_args A')"
    using absorbed_list_start d by simp
  from Parse_scan_absorbed [OF assms this] obtain bs' where
    s: "Parse_scan (A\<lparr>m_args := m_args A'\<rparr>) 0 = Inr (A'\<lparr>m_args := bs'\<rparr>)"
    and a: "absorbed_list (m_args A') (m_args A') bs'" by blast
  from absorbed_list_end [OF a] have "bs' = m_args A'" .
  with s e show ?thesis by simp
qed

text \<open>
  Claim C10. When a call of \<open>Parse\<close> returns, without help and without termination,
  and leaves the state \<open>A'\<close>, a second call on \<open>A'\<close> returns as well and leaves \<open>A'\<close>
  as it is: every argument has the value and the given-flag it had after the first
  call.
\<close>

theorem Parse_idempotent:
  assumes "Parse A = Inr A'"
  shows "Parse A' = Inr A'"
proof -
  from assms have s: "Parse_scan A 0 = Inr A'"
    and r: "Parse_required A' (m_args A') = Inr ()"
    by (auto simp: Parse_def split: sum.splits)
  from Parse_scan_idem [OF s] r show ?thesis
    by (simp add: Parse_def)
qed

theorem Parse_idempotent_witness:
  "Parse (Arg (SetShort CHR ''v'' (SetLong ''verbose'' (WithName ''verbose'')))
            (Arg (Required (ExpectsValue (SetLong ''name'' (WithName ''name''))))
               (From 6 [''prog'', ''--name'', ''Alice'', ''-v'', ''--name'', ''Bob''])))
     = Inr (Arg (SetGiven True
                   (SetShort CHR ''v'' (SetLong ''verbose'' (WithName ''verbose''))))
              (Arg (SetValue ''Bob''
                      (Required (ExpectsValue (SetLong ''name'' (WithName ''name'')))))
                 (From 6 [''prog'', ''--name'', ''Alice'', ''-v'', ''--name'', ''Bob''])))
   \<and> Parse (Arg (SetGiven True
                   (SetShort CHR ''v'' (SetLong ''verbose'' (WithName ''verbose''))))
              (Arg (SetValue ''Bob''
                      (Required (ExpectsValue (SetLong ''name'' (WithName ''name'')))))
                 (From 6 [''prog'', ''--name'', ''Alice'', ''-v'', ''--name'', ''Bob''])))
     = Inr (Arg (SetGiven True
                   (SetShort CHR ''v'' (SetLong ''verbose'' (WithName ''verbose''))))
              (Arg (SetValue ''Bob''
                      (Required (ExpectsValue (SetLong ''name'' (WithName ''name'')))))
                 (From 6 [''prog'', ''--name'', ''Alice'', ''-v'', ''--name'', ''Bob''])))"
proof -
  let ?v = "SetShort CHR ''v'' (SetLong ''verbose'' (WithName ''verbose''))"
  let ?n = "Required (ExpectsValue (SetLong ''name'' (WithName ''name'')))"
  let ?F = "From 6 [''prog'', ''--name'', ''Alice'', ''-v'', ''--name'', ''Bob'']"
  let ?A = "Arg ?v (Arg ?n ?F)"
  let ?A' = "Arg (SetGiven True ?v) (Arg (SetValue ''Bob'' ?n) ?F)"
  have p: "Parse ?A = Inr ?A'"
    by (simp add: parse_eval)
  from Parse_idempotent [OF p] have "Parse ?A' = Inr ?A'" .
  with p show ?thesis by blast
qed

end
